theory Spec2Isabelle
  imports Complex_Main "HOL-Library.Sublist"
begin

section \<open>JavaScript strings\<close>

text \<open>
  A string is the list of its code units. \<open>String.prototype.toUpperCase\<close>,
  \<open>toLowerCase\<close> and \<open>trim\<close> are builtins of the language and follow the Unicode tables;
  the handlers take them as parameters. The search handler never looks into a keyword, so
  its model is polymorphic in the type \<open>'c\<close> of code units. The texts of the flight
  handler are lists of \<open>char\<close>, that is, texts whose code units are below 256.

  On ASCII strings the builtins are the functions below: \<open>toUpperCase\<close> maps the letters
  a..z (codes 97..122) to A..Z (codes 65..90) and \<open>toLowerCase\<close> back, \<open>trim\<close> removes
  white space and line ends at both ends. They stand for the builtins in the scenarios
  whose strings are ASCII.
\<close>

definition toUpperCase_char :: "char \<Rightarrow> char" where
  "toUpperCase_char c =
     (let n = (of_char c :: nat) in if 97 \<le> n \<and> n \<le> 122 then char_of (n - 32) else c)"

definition toLowerCase_char :: "char \<Rightarrow> char" where
  "toLowerCase_char c =
     (let n = (of_char c :: nat) in if 65 \<le> n \<and> n \<le> 90 then char_of (n + 32) else c)"

definition toUpperCase_ascii :: "string \<Rightarrow> string" where
  "toUpperCase_ascii s = map toUpperCase_char s"

definition toLowerCase_ascii :: "string \<Rightarrow> string" where
  "toLowerCase_ascii s = map toLowerCase_char s"

definition is_space :: "char \<Rightarrow> bool" where
  "is_space c \<longleftrightarrow> c \<in> set [CHR '' '', CHR 0x09, CHR 0x0A, CHR 0x0B, CHR 0x0C, CHR 0x0D]"

definition trim_ascii :: "string \<Rightarrow> string" where
  "trim_ascii s = rev (dropWhile is_space (rev (dropWhile is_space s)))"

text \<open>
  Two keywords are case variants of each other when lower-casing makes them equal.
\<close>

definition case_variant :: "('c list \<Rightarrow> 'c list) \<Rightarrow> 'c list \<Rightarrow> 'c list \<Rightarrow> bool" where
  "case_variant toLowerCase k k' \<longleftrightarrow> toLowerCase k = toLowerCase k'"

text \<open>
  \<open>geminiText.replace(/```json|```/g, '')\<close>: the text is scanned from the left; at each
  position the alternative \<open>```json\<close> is tried before \<open>```\<close>, a match is dropped and the
  scan goes on behind it, any other character is kept. Every occurrence is removed, wherever
  it stands in the text.
\<close>

fun strip_fences :: "string \<Rightarrow> string" where
  "strip_fences [] = []"
| "strip_fences (c # cs) =
     (if prefix ''```json'' (c # cs) then strip_fences (drop 6 cs)
      else if prefix ''```'' (c # cs) then strip_fences (drop 2 cs)
      else c # strip_fences cs)"

text \<open>A text contains a fence when three backticks stand somewhere in it.\<close>

fun contains_fence :: "string \<Rightarrow> bool" where
  "contains_fence [] = False"
| "contains_fence (c # cs) = (prefix ''```'' (c # cs) \<or> contains_fence cs)"

section \<open>JavaScript values\<close>

text \<open>
  The values a request body or a parsed JSON text can hold, and \<open>undefined\<close>. Numbers are
  kept abstract (\<open>'n\<close>); the handlers only test them against zero.
\<close>

datatype 'n jsval =
    Undefined
  | Null
  | Bool bool
  | Num 'n
  | Str string
  | Arr "'n jsval list"
  | Obj "(string \<times> 'n jsval) list"

text \<open>
  What \<open>!v\<close> negates: \<open>undefined\<close>, \<open>null\<close>, \<open>false\<close>, \<open>0\<close> and \<open>''\<close> are falsy
  (and \<open>NaN\<close>, which no JSON text denotes).
\<close>

fun truthy :: "'n::zero jsval \<Rightarrow> bool" where
  "truthy Undefined = False"
| "truthy Null = False"
| "truthy (Bool b) = b"
| "truthy (Num n) = (n \<noteq> 0)"
| "truthy (Str s) = (s \<noteq> [])"
| "truthy (Arr xs) = True"
| "truthy (Obj fs) = True"

text \<open>
  Reading a property: \<open>v.k\<close> throws a TypeError when \<open>v\<close> is \<open>null\<close> or \<open>undefined\<close>
  (\<open>nullish\<close>); otherwise it is the field of an object, and \<open>undefined\<close> when the object
  has no such field or \<open>v\<close> is no object. The handler reads \<open>city\<close> and \<open>iataCode\<close> only,
  which no builtin prototype defines.
\<close>

fun nullish :: "'n jsval \<Rightarrow> bool" where
  "nullish Undefined = True"
| "nullish Null = True"
| "nullish v = False"

fun member :: "'n jsval \<Rightarrow> string \<Rightarrow> 'n jsval" where
  "member (Obj fs) k = (case map_of fs k of Some v \<Rightarrow> v | None \<Rightarrow> Undefined)"
| "member v k = Undefined"

text \<open>
  \<open>for (const x of v)\<close>: an array yields its elements, a string its characters, and any
  other parsed value is not iterable (a TypeError, here \<open>None\<close>).
\<close>

fun iterate :: "'n jsval \<Rightarrow> 'n jsval list option" where
  "iterate (Arr xs) = Some xs"
| "iterate (Str s) = Some (map (\<lambda>c. Str [c]) s)"
| "iterate v = None"

text \<open>
  Converting a value to a string, as a template literal does with \<open>${v}\<close>. A parsed
  object has no callable field, so an object with a field of its own named \<open>toString\<close>
  cannot be converted (a TypeError); any other object becomes \<open>[object Object]\<close>. An
  array joins the strings of its elements and fails when one of them fails. Every other
  value converts.
\<close>

fun convertible :: "'n jsval \<Rightarrow> bool" where
  "convertible (Obj fs) = (map_of fs ''toString'' = None)"
| "convertible (Arr xs) = list_all convertible xs"
| "convertible v = True"

section \<open>The airport cache and the \<open>/api/search-airports\<close> handler\<close>

text \<open>\<open>const CACHE_TTL_MS = 24 * 60 * 60 * 1000\<close>, in milliseconds.\<close>

definition CACHE_TTL_MS :: nat where
  "CACHE_TTL_MS = 24 * 60 * 60 * 1000"

text \<open>An error with which an Amadeus call rejects; the handlers read these two fields.\<close>

record amadeus_error =
  code :: string
  description :: string

text \<open>
  What a handler sends: \<open>res.json(body)\<close>, \<open>res.status(400).json({error})\<close>, or
  \<open>res.status(500).json({error, amadeusError})\<close> (the second component is absent in the
  flight handler).
\<close>

datatype 'b response =
    Json200 'b
  | Error400 string
  | Error500 string "string option"

text \<open>
  The state the handler shares between requests, with the part of the event loop it uses:
  \<^item> \<open>airportCache\<close>: the module-level \<open>Map\<close>; an entry holds the response data only,
    nothing about its age;
  \<^item> \<open>timers\<close>: the callbacks registered with \<open>setTimeout\<close> that have not fired yet, each
    with the time it becomes due and the \<open>cacheKey\<close> its closure captured;
  \<^item> \<open>inflight\<close>: the requests suspended at
    \<open>await amadeus.referenceData.locations.get(...)\<close>, each with its \<open>cacheKey\<close>;
  \<^item> \<open>upstream\<close>: the keywords sent to Amadeus so far, in order;
  \<^item> \<open>now\<close>: the clock of the event loop, in milliseconds.
\<close>

record ('c, 'v) server =
  airportCache :: "'c list \<rightharpoonup> 'v"
  timers :: "(nat \<times> 'c list) list"
  inflight :: "'c list list"
  upstream :: "'c list list"
  now :: nat

definition init :: "('c, 'v) server" where
  "init = \<lparr>airportCache = Map.empty, timers = [], inflight = [], upstream = [], now = 0\<rparr>"

definition remove_nth :: "nat \<Rightarrow> 'a list \<Rightarrow> 'a list" where
  "remove_nth i xs = take i xs @ drop (Suc i) xs"

text \<open>
  The handler up to its \<open>await\<close> (lines 245--265): it rejects a missing or empty keyword,
  folds the keyword to \<open>cacheKey\<close> with the builtin, answers from the cache when
  \<open>airportCache.has(cacheKey)\<close>, and otherwise sends \<open>cacheKey\<close> upstream and suspends. The
  reply is \<open>None\<close> while the request is suspended.
\<close>

definition search_airports_request ::
  "('c list \<Rightarrow> 'c list) \<Rightarrow> 'c list \<Rightarrow> ('c, 'v) server \<Rightarrow>
   'v response option \<times> ('c, 'v) server" where
  "search_airports_request toUpperCase keyword s =
     (if keyword = [] then (Some (Error400 ''Keyword is required''), s)
      else
        let cacheKey = toUpperCase keyword in
        case airportCache s cacheKey of
          Some v \<Rightarrow> (Some (Json200 v), s)
        | None \<Rightarrow>
            (None, s\<lparr>inflight := inflight s @ [cacheKey],
                      upstream := upstream s @ [cacheKey]\<rparr>))"

text \<open>
  The rest of the handler (lines 267--285), run when the upstream call of the \<open>i\<close>-th
  suspended request settles. On success the data is stored under the captured
  \<open>cacheKey\<close> and a timer is registered for \<open>CACHE_TTL_MS\<close> later; a rejection is answered
  with status 500 and stores nothing (the \<open>catch\<close> block logs the error first, which is
  taken to succeed). An earlier timer for the same key is left as it is: the handler
  never calls \<open>clearTimeout\<close>.
\<close>

definition search_airports_resume ::
  "nat \<Rightarrow> amadeus_error + 'v \<Rightarrow> ('c, 'v) server \<Rightarrow>
   'v response option \<times> ('c, 'v) server" where
  "search_airports_resume i result s =
     (if i < length (inflight s) then
        let cacheKey = inflight s ! i;
            s' = s\<lparr>inflight := remove_nth i (inflight s)\<rparr>
        in case result of
             Inr responseData \<Rightarrow>
               (Some (Json200 responseData),
                s'\<lparr>airportCache := (airportCache s')(cacheKey \<mapsto> responseData),
                   timers := timers s' @ [(now s' + CACHE_TTL_MS, cacheKey)]\<rparr>)
           | Inl error \<Rightarrow>
               (Some (Error500 ''Failed to fetch airport data'' (Some (description error))), s')
      else (None, s))"

text \<open>
  The timer callback (lines 273--276): \<open>airportCache.delete(cacheKey)\<close>. The \<open>i\<close>-th pending
  timer can fire once it is due; the event loop gives no bound on how much later, and
  other callbacks can run in between. The callback deletes by key, whatever is stored.
\<close>

definition timer_fire :: "nat \<Rightarrow> ('c, 'v) server \<Rightarrow> ('c, 'v) server" where
  "timer_fire i s =
     (if i < length (timers s) \<and> fst (timers s ! i) \<le> now s then
        s\<lparr>airportCache := (airportCache s)(snd (timers s ! i) := None),
          timers := remove_nth i (timers s)\<rparr>
      else s)"

definition tick :: "nat \<Rightarrow> ('c, 'v) server \<Rightarrow> ('c, 'v) server" where
  "tick d s = s\<lparr>now := now s + d\<rparr>"

text \<open>What the event loop can do next, and the state after a sequence of such events.\<close>

datatype ('c, 'v) event =
    Request "'c list"
  | Resume nat "amadeus_error + 'v"
  | Timeout nat
  | Tick nat

fun step ::
  "('c list \<Rightarrow> 'c list) \<Rightarrow> ('c, 'v) event \<Rightarrow> ('c, 'v) server \<Rightarrow> ('c, 'v) server" where
  "step toUpperCase (Request keyword) s = snd (search_airports_request toUpperCase keyword s)"
| "step toUpperCase (Resume i result) s = snd (search_airports_resume i result s)"
| "step toUpperCase (Timeout i) s = timer_fire i s"
| "step toUpperCase (Tick d) s = tick d s"

fun run ::
  "('c list \<Rightarrow> 'c list) \<Rightarrow> ('c, 'v) event list \<Rightarrow> ('c, 'v) server \<Rightarrow> ('c, 'v) server" where
  "run toUpperCase [] s = s"
| "run toUpperCase (e # es) s = run toUpperCase es (step toUpperCase e s)"

text \<open>
  The invariant that keeps an entry alive: no pending timer for key \<open>K\<close> is due before
  \<open>T\<close>, and before \<open>T\<close> the cache holds \<open>v\<close> under \<open>K\<close> and no request for \<open>K\<close> is
  suspended.
\<close>

definition entry_safe :: "'c list \<Rightarrow> 'v \<Rightarrow> nat \<Rightarrow> ('c, 'v) server \<Rightarrow> bool" where
  "entry_safe K v T s \<longleftrightarrow>
     (\<forall>(d, k) \<in> set (timers s). k = K \<longrightarrow> T \<le> d) \<and>
     (now s < T \<longrightarrow> airportCache s K = Some v \<and> K \<notin> set (inflight s))"

text \<open>
  A key nobody has asked for yet: nothing is cached, suspended or scheduled for it.
\<close>

definition untouched :: "'c list \<Rightarrow> ('c, 'v) server \<Rightarrow> bool" where
  "untouched K s \<longleftrightarrow>
     airportCache s K = None \<and> K \<notin> set (inflight s) \<and> K \<notin> snd ` set (timers s)"




subsection \<open>Scenarios\<close>

text \<open>
  One lookup of \<open>par\<close> answered at time 0, then 24 hours pass and the timer has not run yet.
\<close>

definition stale_read_trace :: "(char, string list) event list" where
  "stale_read_trace = [Request ''par'', Resume 0 (Inr [''CDG'']), Tick CACHE_TTL_MS]"

text \<open>
  Two requests for the same key miss before either upstream call has settled; the first
  answer is stored at time 1, the second at time 2.
\<close>

definition overwrite_trace :: "(char, string list) event list" where
  "overwrite_trace =
     [Request ''par'', Request ''PAR'', Tick 1, Resume 0 (Inr [''first'']),
      Tick 1, Resume 0 (Inr [''second''])]"

text \<open>The same, followed by the wait until the first timer is due (time \<open>1 + CACHE_TTL_MS\<close>).\<close>

definition refresh_race :: "(char, string list) event list" where
  "refresh_race = overwrite_trace @ [Tick (CACHE_TTL_MS - 1)]"



text \<open>A lookup of \<open>zzz\<close> waiting for its upstream answer.\<close>

definition zzz_inflight :: "(char, string list) server" where
  "zzz_inflight = snd (search_airports_request toUpperCase_ascii ''zzz'' init)"

text \<open>
  Two overlapping lookups of \<open>zzz\<close>: the first is answered with the empty list, the
  second with one location.
\<close>

definition zzz_empty_stored :: "(char, string list) event list" where
  "zzz_empty_stored = [Request ''zzz'', Request ''ZZZ'', Resume 0 (Inr [])]"

definition zzz_overwritten :: "(char, string list) event list" where
  "zzz_overwritten = zzz_empty_stored @ [Resume 0 (Inr [''Zurich''])]"

text \<open>
  The Kelvin sign (code unit 8490) is an upper-case letter whose lower-case form is the
  letter k (107), and the upper-case form of k is K (75). The builtins on these three
  one-letter strings, over code units as numbers:
\<close>

definition kelvin_upper :: "nat list \<Rightarrow> nat list" where
  "kelvin_upper s = (if s = [107] then [75] else s)"

definition kelvin_lower :: "nat list \<Rightarrow> nat list" where
  "kelvin_lower s = (if s = [8490] \<or> s = [75] then [107] else s)"

text \<open>A lookup of the Kelvin sign from the start, answered and stored.\<close>

definition kelvin_cached :: "(nat, string list) server" where
  "kelvin_cached =
     snd (search_airports_resume 0 (Inr [''Kelvin''])
       (snd (search_airports_request kelvin_upper [8490] init)))"

section \<open>The \<open>/api/search-flights\<close> handler\<close>

text \<open>
  An offer of \<open>flightOffersResponse.data\<close>; the handler reads \<open>price.total\<close> of the first one.
\<close>

record offer =
  total :: string

text \<open>The argument of \<open>amadeus.shopping.flightOffersSearch.get\<close>.\<close>

record 'n flight_query =
  originLocationCode :: "'n jsval"
  destinationLocationCode :: "'n jsval"
  departureDate :: string
  adults :: string
  max' :: nat

text \<open>An element of \<open>flightResults\<close>.\<close>

record 'n flight =
  destination :: "'n jsval"
  price :: 'n

datatype js_error = TypeError

text \<open>
  The calls the handler makes to the two services, in order. The prompt sent to Gemini is
  a fixed text around the two request fields, which stand for it here.
\<close>

datatype 'n upstream_call =
    GenerateContent "'n jsval" "'n jsval"
  | FlightOffersSearch "'n flight_query"

text \<open>
  What the handler takes from outside the repository:
  \<^item> \<open>generateContent\<close>: the text Gemini answers to the prompt built from the two
    request fields, \<open>None\<close> when the call or reading its text throws;
  \<^item> \<open>trim\<close>: the builtin \<open>String.prototype.trim\<close>;
  \<^item> \<open>JSON_parse\<close>: the builtin \<open>JSON.parse\<close>, \<open>None\<close> for a SyntaxError;
  \<^item> \<open>today_plus_3_months\<close>: the date string computed from the clock (lines 209--211);
  \<^item> \<open>flightOffersSearch\<close>: what Amadeus answers to the \<open>n\<close>-th fare query of this request
    (counted from 0), a rejection or the list \<open>data\<close>;
  \<^item> \<open>parseFloat\<close>: the builtin.
\<close>

record 'n env =
  generateContent :: "'n jsval \<Rightarrow> 'n jsval \<Rightarrow> string option"
  trim :: "string \<Rightarrow> string"
  JSON_parse :: "string \<rightharpoonup> 'n jsval"
  today_plus_3_months :: string
  flightOffersSearch :: "nat \<Rightarrow> 'n flight_query \<Rightarrow> amadeus_error + offer list"
  parseFloat :: "string \<Rightarrow> 'n"

definition fare_query :: "'n env \<Rightarrow> 'n jsval \<Rightarrow> 'n jsval \<Rightarrow> 'n flight_query" where
  "fare_query env departureAirport destination' =
     \<lparr>originLocationCode = departureAirport,
      destinationLocationCode = member destination' ''iataCode'',
      departureDate = today_plus_3_months env,
      adults = ''1'',
      max' = 1\<rparr>"

text \<open>
  The loop of lines 213--233, with \<open>flightResults\<close> and the queries sent so far. The inner
  \<open>try\<close> catches a rejected query, and its \<open>catch\<close> block builds a message from
  \<open>destination.iataCode\<close> before the loop goes on with the next destination. An error
  thrown inside the \<open>catch\<close> block leaves the loop: reading \<open>destination.iataCode\<close> of
  \<open>null\<close> throws inside the \<open>try\<close> and again there, and so does a code that cannot be
  converted to a string when its query was rejected.
\<close>

fun fare_loop ::
  "'n env \<Rightarrow> 'n jsval \<Rightarrow> 'n jsval list \<Rightarrow> 'n flight list \<Rightarrow> 'n flight_query list \<Rightarrow>
   (js_error + 'n flight list) \<times> 'n flight_query list" where
  "fare_loop env departureAirport [] flightResults calls = (Inr flightResults, calls)"
| "fare_loop env departureAirport (destination' # rest) flightResults calls =
     (if nullish destination' then (Inl TypeError, calls)
      else
        let q = fare_query env departureAirport destination' in
        case flightOffersSearch env (length calls) q of
          Inl amadeusError \<Rightarrow>
            if convertible (member destination' ''iataCode'') then
              fare_loop env departureAirport rest flightResults (calls @ [q])
            else (Inl TypeError, calls @ [q])
        | Inr data \<Rightarrow>
            (case data of
               [] \<Rightarrow> fare_loop env departureAirport rest flightResults (calls @ [q])
             | first # others \<Rightarrow>
                 fare_loop env departureAirport rest
                   (flightResults @
                      [\<lparr>destination = member destination' ''city'',
                        price = parseFloat env (total first)\<rparr>])
                   (calls @ [q])))"

text \<open>The answer of the outer \<open>catch\<close> block (lines 238--241).\<close>

definition failed_500 :: "'b response" where
  "failed_500 =
     Error500 ''Failed to fetch flight recommendations. Please check server logs.'' None"

text \<open>
  The handler (lines 182--242; lines 34--94 hold the same code): its answer and the calls
  it made. After the validation everything runs inside the outer \<open>try\<close>: building the
  prompt converts both request fields to strings, which throws for a field that cannot
  be converted, before Gemini is called.
\<close>

definition search_flights ::
  "'n::zero env \<Rightarrow> 'n jsval \<Rightarrow> 'n jsval \<Rightarrow>
   'n flight list response \<times> 'n upstream_call list" where
  "search_flights env numberOfDays departureAirport =
     (if \<not> truthy numberOfDays \<or> \<not> truthy departureAirport then
        (Error400 ''Number of days and departure airport are required'', [])
      else if \<not> convertible numberOfDays \<or> \<not> convertible departureAirport then
        (failed_500, [])
      else
        let asked = [GenerateContent numberOfDays departureAirport] in
        case generateContent env numberOfDays departureAirport of
          None \<Rightarrow> (failed_500, asked)
        | Some geminiText \<Rightarrow>
            (case JSON_parse env (trim env (strip_fences geminiText)) of
               None \<Rightarrow> (failed_500, asked)
             | Some destinations \<Rightarrow>
                 (case iterate destinations of
                    None \<Rightarrow> (failed_500, asked)
                  | Some ds \<Rightarrow>
                      (case fare_loop env departureAirport ds [] [] of
                         (Inl e, calls) \<Rightarrow> (failed_500, asked @ map FlightOffersSearch calls)
                       | (Inr flightResults, calls) \<Rightarrow>
                           (Json200 flightResults, asked @ map FlightOffersSearch calls)))))"

text \<open>
  A candidate the loop can report on: it is not \<open>null\<close>, and its \<open>iataCode\<close> can be put
  into the message of the \<open>catch\<close> block. Every object with a string as \<open>iataCode\<close> is one.
\<close>

definition reportable :: "'n jsval \<Rightarrow> bool" where
  "reportable d \<longleftrightarrow> \<not> nullish d \<and> convertible (member d ''iataCode'')"

text \<open>A fare query that yields no result: it was rejected, or it returned no offer.\<close>

definition no_offer :: "amadeus_error + offer list \<Rightarrow> bool" where
  "no_offer r = (case r of Inl e \<Rightarrow> True | Inr data \<Rightarrow> data = [])"

subsection \<open>Scenarios\<close>

text \<open>
  The end-to-end scenario: a trip of 5 days from JFK, Gemini suggests Paris, Tokyo and Lima
  inside a fenced block, Amadeus offers 450.0 for CDG, nothing for HND and 980.5 for LIM.
  \<open>JSON.parse\<close> and \<open>parseFloat\<close> are given on the texts that occur.
\<close>

definition three_payload :: string where
  \<open>three_payload = ''[{"city":"Paris, France","iataCode":"CDG"},{"city":"Tokyo, Japan","iataCode":"HND"},{"city":"Lima, Peru","iataCode":"LIM"}]''\<close>

definition three_candidates :: "rat jsval list" where
  "three_candidates =
     [Obj [(''city'', Str ''Paris, France''), (''iataCode'', Str ''CDG'')],
      Obj [(''city'', Str ''Tokyo, Japan''), (''iataCode'', Str ''HND'')],
      Obj [(''city'', Str ''Lima, Peru''), (''iataCode'', Str ''LIM'')]]"

definition jfk_env :: "rat env" where
  "jfk_env =
     \<lparr>generateContent =
        (\<lambda>n d. Some (''```json'' @ [CHR 0x0A] @ three_payload @ [CHR 0x0A] @ ''```'')),
      trim = trim_ascii,
      JSON_parse = [three_payload \<mapsto> Arr three_candidates],
      today_plus_3_months = ''2027-02-03'',
      flightOffersSearch = (\<lambda>i q.
        if destinationLocationCode q = Str ''CDG'' then Inr [\<lparr>total = ''450.0''\<rparr>]
        else if destinationLocationCode q = Str ''LIM'' then Inr [\<lparr>total = ''980.5''\<rparr>]
        else Inr []),
      parseFloat = (\<lambda>s. if s = ''450.0'' then 450 else if s = ''980.5'' then 980.5 else 0)\<rparr>"

text \<open>The same, with every fare query rejected.\<close>

definition no_fares_env :: "rat env" where
  "no_fares_env =
     jfk_env\<lparr>flightOffersSearch :=
       (\<lambda>i q. Inl \<lparr>code = ''ClientError'', description = ''no flights''\<rparr>)\<rparr>"

text \<open>Gemini answers a list whose only element has no \<open>iataCode\<close>.\<close>

definition missing_code_env :: "rat env" where
  \<open>missing_code_env =
     jfk_env\<lparr>generateContent := (\<lambda>n d. Some ''[{"city":"Paris"}]''),
              JSON_parse := [''[{"city":"Paris"}]'' \<mapsto> Arr [Obj [(''city'', Str ''Paris'')]]]\<rparr>\<close>

text \<open>Gemini answers with prose, which \<open>JSON.parse\<close> rejects.\<close>

definition apology_env :: "rat env" where
  "apology_env =
     jfk_env\<lparr>generateContent := (\<lambda>n d. Some ''Sorry, no ideas.''), JSON_parse := Map.empty\<rparr>"

text \<open>
  A candidate list whose city name holds three backticks, and \<open>JSON.parse\<close> on its
  serialisation and on the same text without the backticks.
\<close>

definition backtick_payload :: string where
  \<open>backtick_payload = ''[{"city":"a```b","iataCode":"X"}]''\<close>

definition backtick_env :: "rat env" where
  \<open>backtick_env =
     jfk_env\<lparr>JSON_parse :=
       [''[{"city":"a```b","iataCode":"X"}]'' \<mapsto>
          Arr [Obj [(''city'', Str ''a```b''), (''iataCode'', Str ''X'')]],
        ''[{"city":"ab","iataCode":"X"}]'' \<mapsto>
          Arr [Obj [(''city'', Str ''ab''), (''iataCode'', Str ''X'')]]]\<rparr>\<close>

text \<open>A number of days that is truthy and cannot be converted to a string.\<close>

definition unprintable_days :: "rat jsval" where
  "unprintable_days = Obj [(''toString'', Num 1)]"

section \<open>Case folding\<close>

lemma toUpperCase_char_lower: "toUpperCase_char (toLowerCase_char c) = toUpperCase_char c"
proof -
  let ?n = "of_char c :: nat"
  show ?thesis
  proof (cases "65 \<le> ?n \<and> ?n \<le> 90")
    case True
    then have "of_char (char_of (?n + 32) :: char) = ?n + 32"
      by (simp add: of_char_of)
    with True show ?thesis
      by (simp add: toUpperCase_char_def toLowerCase_char_def Let_def)
  next
    case False
    then have "toLowerCase_char c = c"
      by (auto simp add: toLowerCase_char_def Let_def)
    then show ?thesis by simp
  qed
qed

text \<open>On ASCII strings, case variants have the same upper-case form.\<close>

lemma case_variant_toUpperCase_ascii:
  assumes "case_variant toLowerCase_ascii k k'"
  shows "toUpperCase_ascii k = toUpperCase_ascii k'"
proof -
  have "toUpperCase_ascii x = toUpperCase_ascii (toLowerCase_ascii x)" for x
    by (simp add: toUpperCase_ascii_def toLowerCase_ascii_def toUpperCase_char_lower)
  with assms show ?thesis
    by (metis case_variant_def)
qed

lemma toUpperCase_par:
  "toUpperCase_ascii ''par'' = ''PAR''" "toUpperCase_ascii ''PAR'' = ''PAR''"
  "toUpperCase_ascii ''Par'' = ''PAR''" "toUpperCase_ascii ''lon'' = ''LON''"
  by code_simp+

lemma toUpperCase_zzz:
  "toUpperCase_ascii ''zzz'' = ''ZZZ''" "toUpperCase_ascii ''Zzz'' = ''ZZZ''"
  "toUpperCase_ascii ''ZZZ'' = ''ZZZ''"
  by code_simp+

section \<open>The cache\<close>

lemmas handler_defs =
  search_airports_request_def search_airports_resume_def timer_fire_def tick_def
  remove_nth_def init_def Let_def

lemma request_hit:
  assumes "kw \<noteq> []" and "airportCache s (toUpperCase kw) = Some v"
  shows "search_airports_request toUpperCase kw s = (Some (Json200 v), s)"
  using assms by (simp add: search_airports_request_def Let_def)

lemma request_miss:
  assumes "kw \<noteq> []" and "airportCache s (toUpperCase kw) = None"
  shows "search_airports_request toUpperCase kw s =
     (None, s\<lparr>inflight := inflight s @ [toUpperCase kw],
               upstream := upstream s @ [toUpperCase kw]\<rparr>)"
  using assms by (simp add: search_airports_request_def Let_def)

lemma resume_store:
  assumes "i < length (inflight s)"
  shows "search_airports_resume i (Inr v) s =
     (Some (Json200 v),
      s\<lparr>inflight := remove_nth i (inflight s),
        airportCache := (airportCache s)(inflight s ! i \<mapsto> v),
        timers := timers s @ [(now s + CACHE_TTL_MS, inflight s ! i)]\<rparr>)"
  using assms by (simp add: search_airports_resume_def Let_def)

lemma set_remove_nth: "set (remove_nth i xs) \<subseteq> set xs"
proof -
  have "set (take i xs) \<subseteq> set xs" "set (drop (Suc i) xs) \<subseteq> set xs"
    by (rule set_take_subset, rule set_drop_subset)
  then show ?thesis by (simp add: remove_nth_def)
qed

subsection \<open>An entry stays until a timer for its key is due\<close>

lemma step_entry_safe:
  assumes "entry_safe K v T s"
  shows "entry_safe K v T (step toUpperCase e s)"
proof (cases e)
  case (Request keyword)
  with assms show ?thesis
    by (auto simp: entry_safe_def search_airports_request_def Let_def split: option.splits)
next
  case (Resume i result)
  show ?thesis
  proof (cases "i < length (inflight s)")
    case False
    with assms Resume show ?thesis by (simp add: search_airports_resume_def)
  next
    case True
    have sub: "set (remove_nth i (inflight s)) \<subseteq> set (inflight s)"
      by (rule set_remove_nth)
    have mem: "inflight s ! i \<in> set (inflight s)"
      using True by simp
    from assms Resume True sub mem show ?thesis
      by (cases result) (auto simp: entry_safe_def search_airports_resume_def Let_def)
  qed
next
  case (Timeout i)
  show ?thesis
  proof (cases "i < length (timers s) \<and> fst (timers s ! i) \<le> now s")
    case False
    with assms Timeout show ?thesis by (auto simp add: timer_fire_def)
  next
    case True
    have sub: "set (remove_nth i (timers s)) \<subseteq> set (timers s)"
      by (rule set_remove_nth)
    have mem: "timers s ! i \<in> set (timers s)"
      using True by simp
    from assms Timeout True sub mem show ?thesis
      by (cases "timers s ! i") (auto simp: entry_safe_def timer_fire_def)
  qed
next
  case (Tick d)
  with assms show ?thesis
    by (auto simp: entry_safe_def tick_def)
qed

lemma run_entry_safe: "entry_safe K v T s \<Longrightarrow> entry_safe K v T (run toUpperCase es s)"
  by (induction es arbitrary: s) (auto intro: step_entry_safe)

lemma entry_safe_after_store:
  assumes "i < length (inflight s)" and "inflight s ! i = K"
    and "K \<notin> set (remove_nth i (inflight s))" and "K \<notin> snd ` set (timers s)"
  shows "entry_safe K v (now s + CACHE_TTL_MS) (snd (search_airports_resume i (Inr v) s))"
proof -
  have "k \<noteq> K" if "(t, k) \<in> set (timers s)" for t k
    using that assms(4) by force
  with assms(1-3) show ?thesis
    by (auto simp: resume_store entry_safe_def)
qed

lemma entry_safe_hit:
  assumes "entry_safe K v T s" and "now s < T" and "kw \<noteq> []" and "toUpperCase kw = K"
  shows "search_airports_request toUpperCase kw s = (Some (Json200 v), s)"
  using assms by (simp add: entry_safe_def request_hit)

subsection \<open>A key stays untouched until it is requested\<close>

lemma step_untouched:
  assumes "untouched K s" and "\<And>kw. e = Request kw \<Longrightarrow> toUpperCase kw \<noteq> K"
  shows "untouched K (step toUpperCase e s)"
proof (cases e)
  case (Request kw)
  with assms show ?thesis
    by (auto simp: untouched_def search_airports_request_def Let_def split: option.splits)
next
  case (Resume i result)
  have sub: "set (remove_nth i (inflight s)) \<subseteq> set (inflight s)"
    by (rule set_remove_nth)
  show ?thesis
  proof (cases "i < length (inflight s)")
    case False
    with assms Resume show ?thesis by (simp add: search_airports_resume_def)
  next
    case True
    then have "inflight s ! i \<in> set (inflight s)" by simp
    with assms(1) have "inflight s ! i \<noteq> K" by (auto simp: untouched_def)
    with assms(1) Resume True sub show ?thesis
      by (cases result) (auto simp: untouched_def search_airports_resume_def Let_def)
  qed
next
  case (Timeout i)
  have sub: "set (remove_nth i (timers s)) \<subseteq> set (timers s)"
    by (rule set_remove_nth)
  with assms(1) Timeout show ?thesis
    by (auto simp: untouched_def timer_fire_def)
next
  case (Tick d)
  with assms(1) show ?thesis by (simp add: untouched_def tick_def)
qed

lemma run_untouched:
  assumes "untouched K s" and "\<forall>kw. Request kw \<in> set es \<longrightarrow> toUpperCase kw \<noteq> K"
  shows "untouched K (run toUpperCase es s)"
  using assms
proof (induction es arbitrary: s)
  case Nil
  then show ?case by simp
next
  case (Cons e es)
  have "untouched K (step toUpperCase e s)"
    using Cons.prems by (intro step_untouched) auto
  moreover have "\<forall>kw. Request kw \<in> set es \<longrightarrow> toUpperCase kw \<noteq> K"
    using Cons.prems(2) by simp
  ultimately show ?case
    using Cons.IH by simp
qed


subsection \<open>A lone request stays alone\<close>







subsection \<open>Expiry\<close>

text \<open>
  C1, as stated, fails: 24 hours after \<open>par\<close> was stored at time 0 its timer is still
  pending, and a lookup at that moment is answered from the cache.
\<close>

theorem C1_stale_read_counterexample:
  "CACHE_TTL_MS \<le> now (run toUpperCase_ascii stale_read_trace init) \<and>
   timers (run toUpperCase_ascii stale_read_trace init) = [(CACHE_TTL_MS, ''PAR'')] \<and>
   fst (search_airports_request toUpperCase_ascii ''par''
         (run toUpperCase_ascii stale_read_trace init)) = Some (Json200 [''CDG''])"
  by (simp add: stale_read_trace_def handler_defs toUpperCase_par)

text \<open>
  Claim C1, amended: expiry is the work of the timer alone. Once a timer registered for the
  key has fired, a lookup of the key is a miss (the request is suspended for an upstream
  call); the clock by itself changes nothing, so until a timer fires the lookup returns
  what is stored, also at or after creation time + 24 h.
\<close>

theorem C1_expiry_by_timer_only:
  assumes "keyword \<noteq> []" and "i < length (timers s)"
    and "timers s ! i = (due, toUpperCase keyword)" and "due \<le> now s"
  shows "fst (search_airports_request toUpperCase keyword (timer_fire i s)) = None \<and>
         (\<forall>d. fst (search_airports_request toUpperCase keyword (tick d s)) =
               fst (search_airports_request toUpperCase keyword s))"
proof -
  have "airportCache (timer_fire i s) (toUpperCase keyword) = None"
    using assms(2-4) by (simp add: timer_fire_def)
  with assms(1) have "fst (search_airports_request toUpperCase keyword (timer_fire i s)) = None"
    by (simp add: request_miss)
  moreover have "fst (search_airports_request toUpperCase keyword (tick d s)) =
      fst (search_airports_request toUpperCase keyword s)" for d
    by (simp add: search_airports_request_def tick_def Let_def split: option.splits)
  ultimately show ?thesis by simp
qed

theorem C1_expiry_by_timer_only_witness:
  "fst (search_airports_request toUpperCase_ascii ''par''
         (timer_fire 0 (run toUpperCase_ascii stale_read_trace init))) = None \<and>
   fst (search_airports_request toUpperCase_ascii ''par''
         (tick 3 (run toUpperCase_ascii stale_read_trace init))) = Some (Json200 [''CDG''])"
proof -
  let ?s = "run toUpperCase_ascii stale_read_trace init"
  have h1: "''par'' \<noteq> []" by simp
  have h2: "0 < length (timers ?s)"
    by (simp add: stale_read_trace_def handler_defs)
  have h3: "timers ?s ! 0 = (CACHE_TTL_MS, toUpperCase_ascii ''par'')"
    by (simp add: stale_read_trace_def handler_defs toUpperCase_par)
  have h4: "CACHE_TTL_MS \<le> now ?s"
    by (simp add: stale_read_trace_def handler_defs)
  have r: "fst (search_airports_request toUpperCase_ascii ''par'' ?s) = Some (Json200 [''CDG''])"
    by (simp add: stale_read_trace_def handler_defs toUpperCase_par)
  from C1_expiry_by_timer_only [where toUpperCase = toUpperCase_ascii, OF h1 h2 h3 h4] r show ?thesis by simp
qed

text \<open>
  Claim C2 (a removal callback never deletes a fresher entry stored after it was
  scheduled) against the code: after two overlapping lookups of the same key the cache
  holds the answer stored at time 2 and both timers are pending; at time
  \<open>1 + CACHE_TTL_MS\<close> the timer of the first store fires and deletes that entry, one
  millisecond before the entry's own timer is due.
\<close>

theorem C2_stale_timer_deletes_fresh_entry:
  "timers (run toUpperCase_ascii refresh_race init) =
     [(1 + CACHE_TTL_MS, ''PAR''), (2 + CACHE_TTL_MS, ''PAR'')] \<and>
   now (run toUpperCase_ascii refresh_race init) = 1 + CACHE_TTL_MS \<and>
   airportCache (run toUpperCase_ascii refresh_race init) ''PAR'' = Some [''second''] \<and>
   airportCache (timer_fire 0 (run toUpperCase_ascii refresh_race init)) ''PAR'' = None \<and>
   timers (timer_fire 0 (run toUpperCase_ascii refresh_race init)) =
     [(2 + CACHE_TTL_MS, ''PAR'')]"
  by (simp add: refresh_race_def overwrite_trace_def handler_defs toUpperCase_par
      CACHE_TTL_MS_def)

text \<open>
  Claim C3 (overwriting a live entry renews value and expiry) against the code: the second
  store at time 2 replaces the value, but the timer of the first store stays registered,
  so the entry is gone at time \<open>1 + CACHE_TTL_MS\<close>, before the second write's time + 24 h.
\<close>

theorem C3_overwrite_keeps_first_expiry:
  "fst (search_airports_request toUpperCase_ascii ''par''
         (run toUpperCase_ascii overwrite_trace init)) = Some (Json200 [''second'']) \<and>
   now (run toUpperCase_ascii (overwrite_trace @ [Tick (CACHE_TTL_MS - 1), Timeout 0]) init)
     < 2 + CACHE_TTL_MS \<and>
   fst (search_airports_request toUpperCase_ascii ''par''
         (run toUpperCase_ascii (overwrite_trace @ [Tick (CACHE_TTL_MS - 1), Timeout 0]) init)) =
     None"
  by (simp add: overwrite_trace_def handler_defs toUpperCase_par CACHE_TTL_MS_def)

subsection \<open>Keys are upper-case forms\<close>

text \<open>
  C4, as stated, fails: the letter k is the lower-case form of the Kelvin sign, but their
  upper-case forms differ. After a lookup of the Kelvin sign was stored, a lookup of k is
  not answered from the cache; it goes upstream under the key K.
\<close>

theorem C4_kelvin_counterexample:
  "case_variant kelvin_lower [8490] [107] \<and>
   airportCache kelvin_cached [8490] = Some [''Kelvin''] \<and>
   search_airports_request kelvin_upper [107] kelvin_cached =
     (None, kelvin_cached\<lparr>inflight := [[75]], upstream := [[8490], [75]]\<rparr>)"
  by (simp add: case_variant_def kelvin_lower_def kelvin_upper_def kelvin_cached_def handler_defs)

text \<open>
  Claim C4, amended: the key of a keyword is its upper-case form. When a lookup of \<open>k\<close>
  misses and its answer \<open>v\<close> is stored, a lookup of any keyword \<open>k'\<close> with the same
  upper-case form right after returns \<open>v\<close> and changes nothing; and when the timer
  registered by that store fires, the entry is gone for \<open>k'\<close> too. The handler folds the
  keyword once, and lookup, store and removal all use the folded key.
\<close>

theorem C4_same_upper_case_same_entry:
  assumes "k \<noteq> []" and "k' \<noteq> []" and "toUpperCase k' = toUpperCase k"
    and "airportCache s (toUpperCase k) = None"
    and "search_airports_request toUpperCase k s = (r1, s1)"
    and "search_airports_resume (length (inflight s)) (Inr v) s1 = (r2, s2)"
  shows "search_airports_request toUpperCase k' s2 = (Some (Json200 v), s2) \<and>
         fst (search_airports_request toUpperCase k'
               (timer_fire (length (timers s)) (tick CACHE_TTL_MS s2))) = None"
proof -
  note K = assms(3) and k' = assms(2)
  have s1: "s1 = s\<lparr>inflight := inflight s @ [toUpperCase k],
                    upstream := upstream s @ [toUpperCase k]\<rparr>"
    using assms(1,4,5) by (auto simp add: search_airports_request_def Let_def)
  have s2: "s2 = s1\<lparr>inflight := remove_nth (length (inflight s)) (inflight s1),
                     airportCache := (airportCache s1)(toUpperCase k \<mapsto> v),
                     timers := timers s1 @ [(now s1 + CACHE_TTL_MS, toUpperCase k)]\<rparr>"
    using assms(6) unfolding s1 by (simp add: search_airports_resume_def Let_def)
  have hit: "search_airports_request toUpperCase k' s2 = (Some (Json200 v), s2)"
    using k' K by (simp add: s2 search_airports_request_def Let_def)
  have gone: "airportCache (timer_fire (length (timers s)) (tick CACHE_TTL_MS s2))
                (toUpperCase k) = None"
    by (simp add: s2 s1 timer_fire_def tick_def)
  have miss: "fst (search_airports_request toUpperCase k'
               (timer_fire (length (timers s)) (tick CACHE_TTL_MS s2))) = None"
    using k' K gone by (simp add: search_airports_request_def Let_def)
  from hit miss show ?thesis by simp
qed

theorem C4_same_upper_case_same_entry_witness:
  "case_variant toLowerCase_ascii ''PAR'' ''par'' \<and>
   toUpperCase_ascii ''par'' = toUpperCase_ascii ''PAR'' \<and>
   fst (search_airports_request toUpperCase_ascii ''par''
     (snd (search_airports_resume 0 (Inr [''CDG''])
        (snd (search_airports_request toUpperCase_ascii ''PAR''
               (init :: (char, string list) server)))))) =
   Some (Json200 [''CDG''])"
proof -
  let ?s = "init :: (char, string list) server"
  let ?s1 = "snd (search_airports_request toUpperCase_ascii ''PAR'' ?s)"
  have h1: "''PAR'' \<noteq> []" and h1': "''par'' \<noteq> []" by simp_all
  have v: "case_variant toLowerCase_ascii ''PAR'' ''par''" by code_simp
  then have h2: "toUpperCase_ascii ''par'' = toUpperCase_ascii ''PAR''"
    by (simp add: case_variant_toUpperCase_ascii)
  have h3: "airportCache ?s (toUpperCase_ascii ''PAR'') = None"
    by (simp add: init_def)
  have h4: "search_airports_request toUpperCase_ascii ''PAR'' ?s =
      (fst (search_airports_request toUpperCase_ascii ''PAR'' ?s), ?s1)"
    by simp
  have h5: "search_airports_resume (length (inflight ?s)) (Inr [''CDG'']) ?s1 =
      (fst (search_airports_resume 0 (Inr [''CDG'']) ?s1),
       snd (search_airports_resume 0 (Inr [''CDG'']) ?s1))"
    by (simp add: init_def)
  from C4_same_upper_case_same_entry
    [where toUpperCase = toUpperCase_ascii, OF h1 h1' h2 h3 h4 h5] v h2
  show ?thesis by simp
qed

subsection \<open>Lookups served from the cache\<close>




text \<open>
  C10, as stated, fails: while the empty answer of one lookup is stored, a second lookup
  of the same key is still waiting; its answer overwrites the empty list, and the next
  lookup, made well before 24 hours have passed, returns the second answer.
\<close>

theorem C10_empty_result_overwritten_counterexample:
  "airportCache (run toUpperCase_ascii zzz_empty_stored init) ''ZZZ'' = Some [] \<and>
   now (run toUpperCase_ascii zzz_overwritten init) < CACHE_TTL_MS \<and>
   fst (search_airports_request toUpperCase_ascii ''zzz''
         (run toUpperCase_ascii zzz_overwritten init)) = Some (Json200 [''Zurich''])"
  by (simp add: zzz_overwritten_def zzz_empty_stored_def handler_defs toUpperCase_zzz
      CACHE_TTL_MS_def)

text \<open>
  Claim C10, amended: an upstream answer with an empty list is cached like any other. When
  the only suspended lookup for key \<open>K\<close> is answered with \<open>[]\<close> and no timer for \<open>K\<close> is
  pending, the empty list is stored under \<open>K\<close>, and every request for \<open>K\<close> made less than
  24 hours later is answered with \<open>[]\<close> and leaves the server unchanged, so it sends
  nothing upstream.
\<close>

theorem C10_empty_result_cached:
  assumes "i < length (inflight s)" and "inflight s ! i = K"
    and "K \<notin> set (remove_nth i (inflight s))" and "K \<notin> snd ` set (timers s)"
    and "search_airports_resume i (Inr []) s = (r, s')"
    and "kw \<noteq> []" and "toUpperCase kw = K"
    and "now (run toUpperCase es s') < now s' + CACHE_TTL_MS"
  shows "r = Some (Json200 []) \<and> airportCache s' K = Some [] \<and>
         search_airports_request toUpperCase kw (run toUpperCase es s') =
           (Some (Json200 []), run toUpperCase es s')"
proof -
  have r: "r = Some (Json200 [])" and s': "s' = snd (search_airports_resume i (Inr []) s)"
    using assms(1,5) by (simp_all add: resume_store)
  have stored: "airportCache s' K = Some []" and "now s' = now s"
    using assms(1,2) by (simp_all add: s' resume_store)
  then have "entry_safe K [] (now s' + CACHE_TTL_MS) s'"
    using entry_safe_after_store [OF assms(1-4), of "[]"] by (simp add: s')
  then have "entry_safe K [] (now s' + CACHE_TTL_MS) (run toUpperCase es s')"
    by (rule run_entry_safe)
  with assms(6-8)
  have "search_airports_request toUpperCase kw (run toUpperCase es s') =
      (Some (Json200 []), run toUpperCase es s')"
    by (simp add: entry_safe_hit)
  with r stored show ?thesis by simp
qed

theorem C10_empty_result_cached_witness:
  "now (run toUpperCase_ascii [Tick 7] (snd (search_airports_resume 0 (Inr []) zzz_inflight)))
     < now (snd (search_airports_resume 0 (Inr []) zzz_inflight)) + CACHE_TTL_MS \<and>
   search_airports_request toUpperCase_ascii ''Zzz''
       (run toUpperCase_ascii [Tick 7] (snd (search_airports_resume 0 (Inr []) zzz_inflight))) =
     (Some (Json200 []),
      run toUpperCase_ascii [Tick 7] (snd (search_airports_resume 0 (Inr []) zzz_inflight)))"
proof -
  let ?s = "zzz_inflight"
  let ?s' = "snd (search_airports_resume 0 (Inr []) zzz_inflight)"
  have h1: "0 < length (inflight ?s)"
    by (simp add: zzz_inflight_def handler_defs)
  have h2: "inflight ?s ! 0 = ''ZZZ''"
    by (simp add: zzz_inflight_def handler_defs toUpperCase_zzz)
  have h3: "''ZZZ'' \<notin> set (remove_nth 0 (inflight ?s))"
    by (simp add: zzz_inflight_def handler_defs)
  have h4: "''ZZZ'' \<notin> snd ` set (timers ?s)"
    by (simp add: zzz_inflight_def handler_defs)
  have h5: "search_airports_resume 0 (Inr []) ?s = (Some (Json200 []), ?s')"
    using h1 by (simp add: resume_store)
  have h6: "''Zzz'' \<noteq> []" by simp
  have h8: "now (run toUpperCase_ascii [Tick 7] ?s') < now ?s' + CACHE_TTL_MS"
    using h1 by (simp add: resume_store tick_def CACHE_TTL_MS_def)
  from C10_empty_result_cached
    [where toUpperCase = toUpperCase_ascii, OF h1 h2 h3 h4 h5 h6 toUpperCase_zzz(2) h8] h8
  show ?thesis by blast
qed

section \<open>Flight recommendations\<close>

subsection \<open>The fare loop\<close>

lemma fare_loop_no_offer:
  assumes "\<forall>d \<in> set ds. reportable d"
    and "\<forall>i < length ds.
           no_offer (flightOffersSearch env (length calls + i) (fare_query env dep (ds ! i)))"
  shows "fare_loop env dep ds fr calls = (Inr fr, calls @ map (fare_query env dep) ds)"
  using assms
proof (induction ds arbitrary: calls)
  case Nil
  show ?case by simp
next
  case (Cons d ds)
  let ?q = "fare_query env dep d"
  from Cons.prems(2) have here: "no_offer (flightOffersSearch env (length calls) ?q)"
    by fastforce
  have rest: "\<forall>i < length ds.
      no_offer (flightOffersSearch env (length (calls @ [?q]) + i) (fare_query env dep (ds ! i)))"
  proof (intro allI impI)
    fix i assume "i < length ds"
    then have "Suc i < length (d # ds)" by simp
    with Cons.prems(2)
    have "no_offer (flightOffersSearch env (length calls + Suc i)
            (fare_query env dep ((d # ds) ! Suc i)))"
      by blast
    then show "no_offer (flightOffersSearch env (length (calls @ [?q]) + i)
            (fare_query env dep (ds ! i)))"
      by simp
  qed
  from Cons.prems(1) have nn: "\<not> nullish d" "convertible (member d ''iataCode'')"
    and nn': "\<forall>d \<in> set ds. reportable d"
    by (simp_all add: reportable_def)
  have "fare_loop env dep (d # ds) fr calls = fare_loop env dep ds fr (calls @ [?q])"
    using nn here
    by (auto simp: no_offer_def Let_def split: sum.splits list.splits)
  also have "\<dots> = (Inr fr, (calls @ [?q]) @ map (fare_query env dep) ds)"
    using nn' rest by (rule Cons.IH)
  finally show ?case by simp
qed

lemma fare_loop_quoted:
  assumes "\<not> nullish d" and "n = length calls"
    and "flightOffersSearch env n (fare_query env dep d) = Inr (first # others)"
  shows "fare_loop env dep (d # ds) fr calls =
     fare_loop env dep ds
       (fr @ [\<lparr>destination = member d ''city'', price = parseFloat env (total first)\<rparr>])
       (calls @ [fare_query env dep d])"
  using assms by (simp add: Let_def)

lemma fare_loop_skipped:
  assumes "reportable d" and "n = length calls"
    and "no_offer (flightOffersSearch env n (fare_query env dep d))"
  shows "fare_loop env dep (d # ds) fr calls =
     fare_loop env dep ds fr (calls @ [fare_query env dep d])"
  using assms by (auto simp: reportable_def no_offer_def Let_def split: sum.splits list.splits)

lemma search_flights_parsed:
  assumes "truthy numberOfDays" and "truthy departureAirport"
    and "convertible numberOfDays" and "convertible departureAirport"
    and "generateContent env numberOfDays departureAirport = Some geminiText"
    and "JSON_parse env (trim env (strip_fences geminiText)) = Some destinations"
    and "iterate destinations = Some ds"
  shows "search_flights env numberOfDays departureAirport =
     (case fare_loop env departureAirport ds [] [] of
        (Inl e, calls) \<Rightarrow>
          (failed_500,
           GenerateContent numberOfDays departureAirport # map FlightOffersSearch calls)
      | (Inr flightResults, calls) \<Rightarrow>
          (Json200 flightResults,
           GenerateContent numberOfDays departureAirport # map FlightOffersSearch calls))"
  using assms by (simp add: search_flights_def Let_def split: prod.splits sum.splits)

lemma jfk_text:
  "trim_ascii (strip_fences (''```json'' @ [CHR 0x0A] @ three_payload @ [CHR 0x0A] @ ''```'')) = three_payload"
  unfolding three_payload_def by code_simp

text \<open>
  Claim C5: when Gemini's answer parses to three candidates, the fare queries for the first
  and the third return at least one offer and the second is rejected or returns no offer,
  the handler answers with status 200 and exactly the two results of the first and the
  third candidate, in that order. When every fare query of a candidate list is rejected or
  returns no offer, the answer is status 200 with the empty list. The request fields are
  values the prompt can be built from, and the candidates are reportable, as every object
  with a string as \<open>iataCode\<close> is.
\<close>

theorem C5_skips_failed_candidates:
  assumes "truthy numberOfDays" and "truthy departureAirport"
    and "convertible numberOfDays" and "convertible departureAirport"
    and "generateContent env numberOfDays departureAirport = Some geminiText"
    and "JSON_parse env (trim env (strip_fences geminiText)) = Some (Arr ds)"
    and "\<forall>d \<in> set ds. reportable d"
  shows "(\<forall>c1 c2 c3 o1 os1 o3 os3.
            ds = [c1, c2, c3] \<and>
            flightOffersSearch env 0 (fare_query env departureAirport c1) = Inr (o1 # os1) \<and>
            no_offer (flightOffersSearch env 1 (fare_query env departureAirport c2)) \<and>
            flightOffersSearch env 2 (fare_query env departureAirport c3) = Inr (o3 # os3) \<longrightarrow>
            fst (search_flights env numberOfDays departureAirport) =
              Json200 [\<lparr>destination = member c1 ''city'', price = parseFloat env (total o1)\<rparr>,
                       \<lparr>destination = member c3 ''city'', price = parseFloat env (total o3)\<rparr>]) \<and>
         ((\<forall>i < length ds.
              no_offer (flightOffersSearch env i (fare_query env departureAirport (ds ! i)))) \<longrightarrow>
            fst (search_flights env numberOfDays departureAirport) = Json200 [])"
proof (intro conjI allI impI)
  fix c1 c2 c3 o1 os1 o3 os3
  assume h: "ds = [c1, c2, c3] \<and>
     flightOffersSearch env 0 (fare_query env departureAirport c1) = Inr (o1 # os1) \<and>
     no_offer (flightOffersSearch env 1 (fare_query env departureAirport c2)) \<and>
     flightOffersSearch env 2 (fare_query env departureAirport c3) = Inr (o3 # os3)"
  with assms(7) have rp: "reportable c1" "reportable c2" "reportable c3"
    by simp_all
  then have nn: "\<not> nullish c1" "\<not> nullish c3"
    by (simp_all add: reportable_def)
  let ?q1 = "fare_query env departureAirport c1"
  let ?q2 = "fare_query env departureAirport c2"
  let ?r1 = "\<lparr>destination = member c1 ''city'', price = parseFloat env (total o1)\<rparr>"
  let ?r3 = "\<lparr>destination = member c3 ''city'', price = parseFloat env (total o3)\<rparr>"
  have "fare_loop env departureAirport [c1, c2, c3] [] [] =
      fare_loop env departureAirport [c2, c3] ([] @ [?r1]) ([] @ [?q1])"
    using nn(1) h by (intro fare_loop_quoted [where n = 0]) simp_all
  also have "\<dots> = fare_loop env departureAirport [c3] ([] @ [?r1]) (([] @ [?q1]) @ [?q2])"
    using rp(2) h by (intro fare_loop_skipped [where n = 1]) simp_all
  also have "\<dots> = fare_loop env departureAirport [] (([] @ [?r1]) @ [?r3])
      ((([] @ [?q1]) @ [?q2]) @ [fare_query env departureAirport c3])"
    using nn(2) h by (intro fare_loop_quoted [where n = 2]) simp_all
  finally have loop: "fare_loop env departureAirport [c1, c2, c3] [] [] =
      (Inr [?r1, ?r3], [?q1, ?q2, fare_query env departureAirport c3])"
    by simp
  have "iterate (Arr ds) = Some [c1, c2, c3]"
    using h by simp
  from search_flights_parsed [OF assms(1-6) this]
  have "search_flights env numberOfDays departureAirport =
      (Json200 [?r1, ?r3],
       GenerateContent numberOfDays departureAirport #
         map FlightOffersSearch [?q1, ?q2, fare_query env departureAirport c3])"
    by (simp only: loop prod.case sum.case)
  then show "fst (search_flights env numberOfDays departureAirport) = Json200 [?r1, ?r3]"
    by (simp only: fst_conv)
next
  assume "\<forall>i < length ds.
     no_offer (flightOffersSearch env i (fare_query env departureAirport (ds ! i)))"
  then have "fare_loop env departureAirport ds [] [] =
      (Inr [], [] @ map (fare_query env departureAirport) ds)"
    using assms(7) by (intro fare_loop_no_offer) simp_all
  moreover have "iterate (Arr ds) = Some ds"
    by simp
  ultimately show "fst (search_flights env numberOfDays departureAirport) = Json200 []"
    using search_flights_parsed [OF assms(1-6)] by simp
qed

theorem C5_skips_failed_candidates_witness:
  "fst (search_flights jfk_env (Num 5) (Str ''JFK'')) =
     Json200 [\<lparr>destination = Str ''Paris, France'', price = 450\<rparr>,
              \<lparr>destination = Str ''Lima, Peru'', price = 980.5\<rparr>] \<and>
   fst (search_flights no_fares_env (Num 5) (Str ''JFK'')) = Json200 []"
proof -
  let ?n = "Num 5 :: rat jsval" and ?d = "Str ''JFK'' :: rat jsval"
  have t: "truthy ?n" "truthy ?d" "convertible ?n" "convertible ?d" by simp_all
  have g: "generateContent jfk_env ?n ?d =
      Some (''```json'' @ [CHR 0x0A] @ three_payload @ [CHR 0x0A] @ ''```'')"
    "generateContent no_fares_env ?n ?d =
      Some (''```json'' @ [CHR 0x0A] @ three_payload @ [CHR 0x0A] @ ''```'')"
    by (simp_all add: jfk_env_def no_fares_env_def)
  have tr: "trim jfk_env = trim_ascii" "trim no_fares_env = trim_ascii"
    by (simp_all add: jfk_env_def no_fares_env_def)
  have p: "JSON_parse jfk_env (trim jfk_env
        (strip_fences (''```json'' @ [CHR 0x0A] @ three_payload @ [CHR 0x0A] @ ''```''))) =
      Some (Arr three_candidates)"
    "JSON_parse no_fares_env (trim no_fares_env
        (strip_fences (''```json'' @ [CHR 0x0A] @ three_payload @ [CHR 0x0A] @ ''```''))) =
      Some (Arr three_candidates)"
    by (simp_all only: tr jfk_text) (simp_all add: jfk_env_def no_fares_env_def)
  have nn: "\<forall>d \<in> set three_candidates. reportable d"
    by (simp add: three_candidates_def reportable_def)
  have first: "three_candidates =
       [three_candidates ! 0, three_candidates ! 1, three_candidates ! 2] \<and>
     flightOffersSearch jfk_env 0 (fare_query jfk_env ?d (three_candidates ! 0)) =
       Inr (\<lparr>total = ''450.0''\<rparr> # []) \<and>
     no_offer (flightOffersSearch jfk_env 1 (fare_query jfk_env ?d (three_candidates ! 1))) \<and>
     flightOffersSearch jfk_env 2 (fare_query jfk_env ?d (three_candidates ! 2)) =
       Inr (\<lparr>total = ''980.5''\<rparr> # [])"
    by (simp add: three_candidates_def jfk_env_def fare_query_def no_offer_def)
  have none: "\<forall>i < length three_candidates.
      no_offer (flightOffersSearch no_fares_env i
        (fare_query no_fares_env ?d (three_candidates ! i)))"
    by (simp add: no_fares_env_def no_offer_def)
  have "fst (search_flights jfk_env ?n ?d) =
      Json200 [\<lparr>destination = member (three_candidates ! 0) ''city'',
                 price = parseFloat jfk_env (total \<lparr>total = ''450.0''\<rparr>)\<rparr>,
               \<lparr>destination = member (three_candidates ! 2) ''city'',
                 price = parseFloat jfk_env (total \<lparr>total = ''980.5''\<rparr>)\<rparr>]"
    using C5_skips_failed_candidates [OF t g(1) p(1) nn] first by blast
  moreover have "fst (search_flights no_fares_env ?n ?d) = Json200 []"
    using C5_skips_failed_candidates [OF t g(2) p(2) nn] none by blast
  ultimately show ?thesis
    by (simp add: three_candidates_def jfk_env_def)
qed

subsection \<open>Malformed suggestions\<close>

text \<open>
  C6, as stated, fails: a list whose element has no \<open>iataCode\<close> is not rejected. The fare
  query is sent with an undefined destination code, and the answer is status 200.
\<close>

theorem C6_missing_field_counterexample:
  \<open>JSON_parse missing_code_env
     (trim missing_code_env (strip_fences ''[{"city":"Paris"}]'')) =
     Some (Arr [Obj [(''city'', Str ''Paris'')]]) \<and>
   member (Obj [(''city'', Str ''Paris'')] :: rat jsval) ''iataCode'' = Undefined \<and>
   search_flights missing_code_env (Num 5) (Str ''JFK'') =
     (Json200 [],
      [GenerateContent (Num 5) (Str ''JFK''),
       FlightOffersSearch
         \<lparr>originLocationCode = Str ''JFK'', destinationLocationCode = Undefined,
          departureDate = ''2027-02-03'', adults = ''1'', max' = 1\<rparr>])\<close>
  by (simp add: search_flights_def missing_code_env_def jfk_env_def fare_query_def
      trim_ascii_def is_space_def)

text \<open>
  Claim C6, amended: when Gemini has answered and the cleaned text is rejected by
  \<open>JSON.parse\<close>, or parses to a value that cannot be iterated, the handler answers with the
  one status-500 error and has sent no fare query. The elements of a parsed list are not
  checked.
\<close>

theorem C6_unparseable_payload_is_fatal:
  assumes "truthy numberOfDays" and "truthy departureAirport"
    and "convertible numberOfDays" and "convertible departureAirport"
    and "generateContent env numberOfDays departureAirport = Some geminiText"
    and "JSON_parse env (trim env (strip_fences geminiText)) = None \<or>
         (\<exists>v. JSON_parse env (trim env (strip_fences geminiText)) = Some v \<and>
              iterate v = None)"
  shows "search_flights env numberOfDays departureAirport =
           (failed_500, [GenerateContent numberOfDays departureAirport])"
  using assms by (auto simp: search_flights_def Let_def)

theorem C6_unparseable_payload_is_fatal_witness:
  "search_flights apology_env (Num 5) (Str ''JFK'') =
     (failed_500, [GenerateContent (Num 5) (Str ''JFK'')])"
proof -
  let ?n = "Num 5 :: rat jsval" and ?d = "Str ''JFK'' :: rat jsval"
  have t: "truthy ?n" "truthy ?d" "convertible ?n" "convertible ?d" by simp_all
  have g: "generateContent apology_env ?n ?d = Some ''Sorry, no ideas.''"
    by (simp add: apology_env_def)
  have p: "JSON_parse apology_env
        (trim apology_env (strip_fences ''Sorry, no ideas.'')) = None \<or>
      (\<exists>v. JSON_parse apology_env
        (trim apology_env (strip_fences ''Sorry, no ideas.'')) = Some v \<and> iterate v = None)"
    by (simp add: apology_env_def)
  from C6_unparseable_payload_is_fatal [OF t g p] show ?thesis .
qed

subsection \<open>Fence stripping\<close>

lemma contains_fence_iff: "contains_fence t \<longleftrightarrow> (\<exists>u v. t = u @ ''```'' @ v)"
proof (induction t)
  case Nil
  show ?case by simp
next
  case (Cons c cs)
  show ?case
  proof
    assume "contains_fence (c # cs)"
    then consider "prefix ''```'' (c # cs)" | "contains_fence cs" by auto
    then show "\<exists>u v. c # cs = u @ ''```'' @ v"
    proof cases
      case 1
      then obtain v where "c # cs = ''```'' @ v" by (auto simp: prefix_def)
      then have "c # cs = [] @ ''```'' @ v" by simp
      then show ?thesis by blast
    next
      case 2
      with Cons.IH obtain u v where "cs = u @ ''```'' @ v" by blast
      then have "c # cs = (c # u) @ ''```'' @ v" by simp
      then show ?thesis by blast
    qed
  next
    assume "\<exists>u v. c # cs = u @ ''```'' @ v"
    then obtain u v where uv: "c # cs = u @ ''```'' @ v" by blast
    show "contains_fence (c # cs)"
    proof (cases u)
      case Nil
      with uv have "prefix ''```'' (c # cs)" by (simp add: prefix_def)
      then show ?thesis by (simp only: contains_fence.simps simp_thms)
    next
      case (Cons a u')
      with uv have "cs = u' @ ''```'' @ v" by simp
      with Cons.IH have "contains_fence cs" by blast
      then show ?thesis by simp
    qed
  qed
qed

lemma strip_fences_other:
  assumes "\<not> prefix ''```'' (c # cs)"
  shows "strip_fences (c # cs) = c # strip_fences cs"
proof -
  have "\<not> prefix ''```json'' (c # cs)"
    using assms by (auto simp: prefix_def)
  with assms show ?thesis by (simp del: Cons_prefix_Cons)
qed

lemma strip_fences_closing:
  assumes "\<not> contains_fence t"
  shows "strip_fences (t @ ''```'') = t"
  using assms
proof (induction t)
  case Nil
  show ?case by simp
next
  case (Cons c cs)
  then have np: "\<not> prefix ''```'' (c # cs)" and IH: "strip_fences (cs @ ''```'') = cs"
    by simp_all
  show ?case
  proof (cases "prefix ''```'' ((c # cs) @ ''```'')")
    case False
    then have "strip_fences (c # (cs @ ''```'')) = c # strip_fences (cs @ ''```'')"
      by (intro strip_fences_other) simp
    with IH show ?thesis by simp
  next
    case True
    with np have "c # cs = ''`'' \<or> c # cs = ''``''"
      by (cases cs; cases "tl cs") auto
    then show ?thesis by auto
  qed
qed

lemma strip_fences_wrapped:
  assumes "\<not> contains_fence t"
  shows "strip_fences (''```json'' @ t @ ''```'') = t"
  using strip_fences_closing [OF assms] by simp

text \<open>
  C7, as stated, fails: three backticks inside a city name are removed with the wrapper,
  so the cleaned text parses to a list with another city name.
\<close>

theorem C7_backticks_in_content_counterexample:
  \<open>JSON_parse backtick_env (trim backtick_env backtick_payload) =
     Some (Arr [Obj [(''city'', Str ''a```b''), (''iataCode'', Str ''X'')]]) \<and>
   JSON_parse backtick_env
     (trim backtick_env (strip_fences (''```json'' @ backtick_payload @ ''```''))) =
     Some (Arr [Obj [(''city'', Str ''ab''), (''iataCode'', Str ''X'')]])\<close>
proof -
  have tr: "trim backtick_env = trim_ascii"
    by (simp add: backtick_env_def jfk_env_def)
  have a: \<open>trim_ascii backtick_payload = ''[{"city":"a```b","iataCode":"X"}]''\<close>
    unfolding backtick_payload_def by code_simp
  have b: \<open>trim_ascii (strip_fences (''```json'' @ backtick_payload @ ''```'')) =
      ''[{"city":"ab","iataCode":"X"}]''\<close>
    unfolding backtick_payload_def by code_simp
  show ?thesis
    unfolding tr a b by (simp add: backtick_env_def)
qed

text \<open>
  Claim C7, amended: for a payload without three consecutive backticks, stripping the
  \<open>```json ... ```\<close> wrapper and parsing gives what parsing the payload itself gives.
\<close>

theorem C7_fence_free_payload_roundtrip:
  assumes "\<not> contains_fence payload"
  shows "JSON_parse env (trim env (strip_fences (''```json'' @ payload @ ''```''))) =
           JSON_parse env (trim env payload)"
proof -
  have "strip_fences (''```json'' @ payload @ ''```'') = payload"
    using assms by (rule strip_fences_wrapped)
  then show ?thesis by (simp only:)
qed

theorem C7_fence_free_payload_roundtrip_witness:
  "\<not> contains_fence ([CHR 0x0A] @ three_payload @ [CHR 0x0A]) \<and>
   JSON_parse jfk_env (trim jfk_env
       (strip_fences (''```json'' @ ([CHR 0x0A] @ three_payload @ [CHR 0x0A]) @ ''```''))) =
     Some (Arr three_candidates)"
proof -
  have h1: "\<not> contains_fence ([CHR 0x0A] @ three_payload @ [CHR 0x0A])"
    unfolding three_payload_def by code_simp
  have tr: "trim jfk_env = trim_ascii"
    by (simp add: jfk_env_def)
  have t: "trim_ascii ([CHR 0x0A] @ three_payload @ [CHR 0x0A]) = three_payload"
    unfolding three_payload_def by code_simp
  have h2: "JSON_parse jfk_env (trim jfk_env ([CHR 0x0A] @ three_payload @ [CHR 0x0A])) =
      Some (Arr three_candidates)"
    unfolding tr t by (simp add: jfk_env_def)
  from C7_fence_free_payload_roundtrip [OF h1, of jfk_env] h1 h2 show ?thesis
    by (simp only: simp_thms)
qed

subsection \<open>Input validation\<close>

text \<open>
  C9, as stated, fails: the object \<open>{"toString": 1}\<close> is truthy and passes the validation,
  but it cannot be converted to a string, so building the prompt throws and the request is
  answered with status 500 without a call to Gemini.
\<close>

theorem C9_unprintable_days_counterexample:
  "truthy unprintable_days \<and> truthy (Str ''JFK'' :: rat jsval) \<and>
   search_flights jfk_env unprintable_days (Str ''JFK'') = (failed_500, [])"
  by (simp add: unprintable_days_def search_flights_def)

text \<open>
  Claim C9, amended: validation tests truthiness. A \<open>numberOfDays\<close> of \<open>0\<close> or \<open>''\<close> is
  answered with status 400 before any upstream call. Truthy values of both fields pass the
  validation: when both can be converted to a string the request goes on to Gemini,
  whatever \<open>numberOfDays\<close> is, and every non-empty string is such a value; when one of them
  cannot, the answer is status 500, again before any upstream call.
\<close>

theorem C9_truthiness_validation:
  "(numberOfDays = Num 0 \<or> numberOfDays = Str [] \<longrightarrow>
      search_flights env numberOfDays departureAirport =
        (Error400 ''Number of days and departure airport are required'', [])) \<and>
   (truthy numberOfDays \<and> truthy departureAirport \<and>
    convertible numberOfDays \<and> convertible departureAirport \<longrightarrow>
      (\<exists>r calls. search_flights env numberOfDays departureAirport =
         (r, GenerateContent numberOfDays departureAirport # calls) \<and>
         r \<noteq> Error400 ''Number of days and departure airport are required'')) \<and>
   (truthy numberOfDays \<and> truthy departureAirport \<and>
    \<not> (convertible numberOfDays \<and> convertible departureAirport) \<longrightarrow>
      search_flights env numberOfDays departureAirport = (failed_500, [])) \<and>
   (s \<noteq> [] \<longrightarrow> truthy (Str s :: 'n::zero jsval) \<and> convertible (Str s :: 'n jsval))"
proof (intro conjI impI)
  assume "numberOfDays = Num 0 \<or> numberOfDays = Str []"
  then have "\<not> truthy numberOfDays" by auto
  then show "search_flights env numberOfDays departureAirport =
      (Error400 ''Number of days and departure airport are required'', [])"
    by (simp add: search_flights_def)
next
  assume "truthy numberOfDays \<and> truthy departureAirport \<and>
    convertible numberOfDays \<and> convertible departureAirport"
  then show "\<exists>r calls. search_flights env numberOfDays departureAirport =
         (r, GenerateContent numberOfDays departureAirport # calls) \<and>
         r \<noteq> Error400 ''Number of days and departure airport are required''"
    by (auto simp: search_flights_def Let_def failed_500_def
        split: option.splits prod.splits sum.splits)
next
  assume "truthy numberOfDays \<and> truthy departureAirport \<and>
    \<not> (convertible numberOfDays \<and> convertible departureAirport)"
  then show "search_flights env numberOfDays departureAirport = (failed_500, [])"
    by (auto simp: search_flights_def)
next
  assume "s \<noteq> []"
  then show "truthy (Str s :: 'n jsval)" by simp
next
  show "convertible (Str s :: 'n jsval)" by simp
qed

theorem C9_truthiness_validation_witness:
  "search_flights jfk_env (Num 0) (Str ''JFK'') =
     (Error400 ''Number of days and departure airport are required'', []) \<and>
   search_flights jfk_env (Str []) (Str ''JFK'') =
     (Error400 ''Number of days and departure airport are required'', []) \<and>
   truthy (Str ''soon'' :: rat jsval) \<and> convertible (Str ''soon'' :: rat jsval) \<and>
   (\<exists>r calls. search_flights jfk_env (Str ''soon'') (Str ''JFK'') =
      (r, GenerateContent (Str ''soon'') (Str ''JFK'') # calls) \<and>
      r \<noteq> Error400 ''Number of days and departure airport are required'') \<and>
   search_flights jfk_env unprintable_days (Str ''JFK'') = (failed_500, [])"
proof -
  have a: "(Num 0 :: rat jsval) = Num 0 \<or> (Num 0 :: rat jsval) = Str []" by simp
  have b: "(Str [] :: rat jsval) = Num 0 \<or> (Str [] :: rat jsval) = Str []" by simp
  have c: "''soon'' \<noteq> []" by simp
  have d: "truthy (Str ''JFK'' :: rat jsval)" "convertible (Str ''JFK'' :: rat jsval)"
    by simp_all
  have e: "truthy unprintable_days"
    "\<not> (convertible unprintable_days \<and> convertible (Str ''JFK'' :: rat jsval))"
    by (simp_all add: unprintable_days_def)
  from C9_truthiness_validation [of "Num 0" jfk_env "Str ''JFK''" "''soon''"] a
  have 1: "search_flights jfk_env (Num 0) (Str ''JFK'') =
     (Error400 ''Number of days and departure airport are required'', [])"
    by blast
  from C9_truthiness_validation [of "Str []" jfk_env "Str ''JFK''" "''soon''"] b
  have 2: "search_flights jfk_env (Str []) (Str ''JFK'') =
     (Error400 ''Number of days and departure airport are required'', [])"
    by blast
  from C9_truthiness_validation [of "Str ''soon''" jfk_env "Str ''JFK''" "''soon''"] c
  have 3: "truthy (Str ''soon'' :: rat jsval)" "convertible (Str ''soon'' :: rat jsval)"
    by blast+
  from C9_truthiness_validation [of "Str ''soon''" jfk_env "Str ''JFK''" "''soon''"] 3 d
  have 4: "\<exists>r calls. search_flights jfk_env (Str ''soon'') (Str ''JFK'') =
      (r, GenerateContent (Str ''soon'') (Str ''JFK'') # calls) \<and>
      r \<noteq> Error400 ''Number of days and departure airport are required''"
    by blast
  from C9_truthiness_validation [of unprintable_days jfk_env "Str ''JFK''" "''soon''"] e d(1)
  have 5: "search_flights jfk_env unprintable_days (Str ''JFK'') = (failed_500, [])"
    by blast
  from 1 2 3 4 5 show ?thesis by blast
qed

end
